theory Spec2Isabelle
  imports Main
begin

section \<open>The stack command of pmxbot: index language and list operations\<close>

text \<open>
  The development embeds \<^verbatim>\<open>src/pmxbot/stack.py\<close>: the function \<^verbatim>\<open>parse_index\<close>,
  which turns an index expression into a list of 0-based positions, and the command
  \<^verbatim>\<open>stack\<close>, which extracts topic, index and payload from the command line and runs one
  of the subcommands show, add, pop, shuffle and help on the items of a topic.

  Python strings are modelled as \<^typ>\<open>string\<close>: a list of characters, one \<^typ>\<open>char\<close> per
  code point, for code points below 256. Python integers are \<^typ>\<open>int\<close>.
\<close>

subsection \<open>String primitives of the host language\<close>

text \<open>
  \<^verbatim>\<open>str.strip()\<close> removes the characters for which \<^verbatim>\<open>str.isspace\<close> holds: tab to
  carriage return (9 to 13), the separators 28 to 31, the space, NEL (133) and the
  no-break space (160).
\<close>

definition is_space :: "char \<Rightarrow> bool" where
  "is_space c =
     (let n = (of_char c :: nat)
      in (9 \<le> n \<and> n \<le> 13) \<or> (28 \<le> n \<and> n \<le> 32) \<or> n = 133 \<or> n = 160)"

definition strip :: "string \<Rightarrow> string" where
  "strip s = rev (dropWhile is_space (rev (dropWhile is_space s)))"

text \<open>
  \<^verbatim>\<open>str.lower()\<close> on code points below 256: the letters A to Z and the upper-case
  letters of the range 192 to 222 (but the multiplication sign, 215) move up by 32.
\<close>

definition lower_char :: "char \<Rightarrow> char" where
  "lower_char c =
     (let n = (of_char c :: nat)
      in if (65 \<le> n \<and> n \<le> 90) \<or> (192 \<le> n \<and> n \<le> 222 \<and> n \<noteq> 215)
         then char_of (n + 32) else c)"

definition lower :: "string \<Rightarrow> string" where
  "lower s = map lower_char s"

definition startswith :: "string \<Rightarrow> string \<Rightarrow> bool" where
  "startswith s p = (take (length p) s = p)"

definition endswith :: "string \<Rightarrow> string \<Rightarrow> bool" where
  "endswith s p = (length p \<le> length s \<and> drop (length s - length p) s = p)"

text \<open>The test \<^verbatim>\<open>sub in s\<close> on strings: \<open>sub\<close> occurs in \<open>s\<close> as a contiguous run.\<close>

fun contains :: "string \<Rightarrow> string \<Rightarrow> bool" where
  "contains sub [] = (sub = [])"
| "contains sub (c # cs) = (startswith (c # cs) sub \<or> contains sub cs)"

text \<open>\<^verbatim>\<open>s.split(sep)\<close> for a one-character separator: every occurrence splits.\<close>

fun split_on :: "char \<Rightarrow> string \<Rightarrow> string list" where
  "split_on sep [] = [[]]"
| "split_on sep (x # xs) =
     (if x = sep then [] # split_on sep xs
      else (case split_on sep xs of
              [] \<Rightarrow> [[x]]
            | h # t \<Rightarrow> (x # h) # t))"

text \<open>\<^verbatim>\<open>s.split(sep, 1)\<close>: only the first occurrence of the separator splits.\<close>

definition split1 :: "char \<Rightarrow> string \<Rightarrow> string list" where
  "split1 sep s =
     (if sep \<in> set s
      then [takeWhile (\<lambda>x. x \<noteq> sep) s, tl (dropWhile (\<lambda>x. x \<noteq> sep) s)]
      else [s])"

text \<open>\<^verbatim>\<open>s.find(c)\<close> and \<^verbatim>\<open>s.rfind(c)\<close>: the first and the last position of \<open>c\<close>, or -1.\<close>

definition find_char :: "char \<Rightarrow> string \<Rightarrow> int" where
  "find_char c s =
     (if c \<in> set s then int (length (takeWhile (\<lambda>x. x \<noteq> c) s)) else - 1)"

definition rfind_char :: "char \<Rightarrow> string \<Rightarrow> int" where
  "rfind_char c s =
     (if c \<in> set s
      then int (length s) - 1 - int (length (takeWhile (\<lambda>x. x \<noteq> c) (rev s)))
      else - 1)"

text \<open>
  Positions given to slices and to \<^verbatim>\<open>list.insert\<close>: a negative position counts from the
  end, and the outcome is clamped to the range from 0 to the length.
\<close>

definition clamp_index :: "nat \<Rightarrow> int \<Rightarrow> nat" where
  "clamp_index n i = (if i < 0 then nat (max 0 (i + int n)) else min n (nat i))"

definition slice_to :: "int \<Rightarrow> 'a list \<Rightarrow> 'a list" where
  "slice_to b s = take (clamp_index (length s) b) s"

definition slice_from :: "int \<Rightarrow> 'a list \<Rightarrow> 'a list" where
  "slice_from a s = drop (clamp_index (length s) a) s"

definition slice :: "int \<Rightarrow> int \<Rightarrow> 'a list \<Rightarrow> 'a list" where
  "slice a b s =
     (let lo = clamp_index (length s) a; hi = clamp_index (length s) b
      in take (hi - lo) (drop lo s))"

definition list_insert :: "int \<Rightarrow> 'a \<Rightarrow> 'a list \<Rightarrow> 'a list" where
  "list_insert k x xs =
     (let j = clamp_index (length xs) k in take j xs @ x # drop j xs)"

text \<open>\<^verbatim>\<open>sep.join(parts)\<close>.\<close>

fun join :: "string \<Rightarrow> string list \<Rightarrow> string" where
  "join sep [] = []"
| "join sep [p] = p"
| "join sep (p # q # ps) = p @ sep @ join sep (q # ps)"

subsection \<open>Integers from and to text\<close>

text \<open>
  \<^verbatim>\<open>int(s)\<close> on a string, base 10: surrounding white space is dropped, one sign may
  lead, and the rest is a non-empty run of digits in which single underscores may stand
  between two digits. Anything else raises ValueError, here \<open>None\<close>. (The limit that an
  interpreter may set on the number of digits is not part of the model.)
\<close>

definition is_digit :: "char \<Rightarrow> bool" where
  "is_digit c = (48 \<le> (of_char c :: nat) \<and> (of_char c :: nat) \<le> 57)"

definition digit_value :: "char \<Rightarrow> int" where
  "digit_value c = int (of_char c) - 48"

fun int_body_ok :: "string \<Rightarrow> bool" where
  "int_body_ok [] = False"
| "int_body_ok [c] = is_digit c"
| "int_body_ok (c # d # cs) =
     (is_digit c \<and> (if d = CHR ''_'' then int_body_ok cs else int_body_ok (d # cs)))"

definition int_body_value :: "string \<Rightarrow> int" where
  "int_body_value s =
     foldl (\<lambda>a c. 10 * a + digit_value c) 0 (filter (\<lambda>c. c \<noteq> CHR ''_'') s)"

definition int_space :: "char \<Rightarrow> bool" where
  "int_space c =
     (let n = (of_char c :: nat) in (9 \<le> n \<and> n \<le> 13) \<or> n = 32 \<or> n = 133 \<or> n = 160)"

definition py_int :: "string \<Rightarrow> int option" where
  "py_int s =
     (let t = rev (dropWhile int_space (rev (dropWhile int_space s)))
      in case t of
           [] \<Rightarrow> None
         | c # r \<Rightarrow>
             if c = CHR ''-'' then (if int_body_ok r then Some (- int_body_value r) else None)
             else if c = CHR ''+'' then (if int_body_ok r then Some (int_body_value r) else None)
             else (if int_body_ok t then Some (int_body_value t) else None))"

text \<open>\<^verbatim>\<open>range(a, b)\<close>: the integers from \<open>a\<close> up to, but without, \<open>b\<close>.\<close>

definition py_range :: "int \<Rightarrow> int \<Rightarrow> int list" where
  "py_range a b = [a .. b - 1]"

text \<open>The format \<^verbatim>\<open>%d\<close>: decimal digits, with a minus sign for a negative number.\<close>

fun str_nat :: "nat \<Rightarrow> string" where
  "str_nat n =
     (if n < 10 then [char_of (48 + n)]
      else str_nat (n div 10) @ [char_of (48 + n mod 10)])"

declare str_nat.simps [simp del]

definition str_int :: "int \<Rightarrow> string" where
  "str_int i = (if i < 0 then CHR ''-'' # str_nat (nat (- i)) else str_nat (nat i))"

subsection \<open>The index language: \<^verbatim>\<open>parse_index\<close>\<close>

text \<open>
  Two exceptions can leave \<^verbatim>\<open>parse_index\<close>: ValueError, raised by \<^verbatim>\<open>int\<close>, and the
  error that the regular-expression library raises for a pattern that does not compile
  (\<^verbatim>\<open>re.error\<close>, which is not a ValueError).
\<close>

datatype exn = ValueError | ReError

text \<open>
  The regular-expression library is outside the repository and is a parameter of the
  model: \<open>re pattern text\<close> is \<open>None\<close> when \<^verbatim>\<open>re.search(pattern, text)\<close> raises
  \<^verbatim>\<open>re.error\<close>, and otherwise tells whether a match was found.
\<close>

type_synonym regex = "string \<Rightarrow> string \<Rightarrow> bool option"

text \<open>The loop over \<^verbatim>\<open>enumerate(items)\<close> of the regex branch; the first failing search ends it.\<close>

fun regex_scan :: "regex \<Rightarrow> string \<Rightarrow> (nat \<times> string) list \<Rightarrow> exn + int list" where
  "regex_scan re pat [] = Inr []"
| "regex_scan re pat ((i, item) # rest) =
     (case re pat item of
        None \<Rightarrow> Inl ReError
      | Some found \<Rightarrow>
          (case regex_scan re pat rest of
             Inl e \<Rightarrow> Inl e
           | Inr js \<Rightarrow> Inr (if found then int i # js else js)))"

text \<open>The loop over \<^verbatim>\<open>enumerate(items)\<close> of the quoted branch.\<close>

definition quoted_scan :: "string \<Rightarrow> string list \<Rightarrow> int list" where
  "quoted_scan text items =
     map (\<lambda>(i, item). int i)
       (filter (\<lambda>(i, item). contains text (lower item)) (enumerate 0 items))"

text \<open>
  The body of the loop over the atoms, for an atom that is already stripped and not
  empty: the positions that the atom appends to \<^verbatim>\<open>indices\<close>, or the exception raised.
\<close>

definition parse_atom :: "regex \<Rightarrow> string \<Rightarrow> string list \<Rightarrow> exn + int list" where
  "parse_atom re atom items =
     (let n = int (length items) in
      if (startswith atom [CHR 0x27] \<and> endswith atom [CHR 0x27]) \<or>
         (startswith atom [CHR 0x22] \<and> endswith atom [CHR 0x22])
      then Inr (quoted_scan (lower (slice 1 (- 1) atom)) items)
      else if startswith atom ''/'' \<and> endswith atom ''/''
      then regex_scan re (slice 1 (- 1) atom) (enumerate 0 items)
      else if CHR '':'' \<in> set atom
      then (case map strip (split1 CHR '':'' atom) of
              [start_s, end_s] \<Rightarrow>
                (case (if start_s \<noteq> [] then py_int start_s else Some 1) of
                   None \<Rightarrow> Inl ValueError
                 | Some start0 \<Rightarrow>
                     (let start1 = (if start0 < 0 then start0 + (n + 1) else start0) in
                      case (if end_s \<noteq> [] then py_int end_s else Some n) of
                        None \<Rightarrow> Inl ValueError
                      | Some end0 \<Rightarrow>
                          (let end1 = (if end0 < 0 then end0 + (n + 1) else end0);
                               start2 = start1 - 1;
                               end2 = end1 - 1
                           in Inr (py_range start2 (end2 + 1)))))
            | _ \<Rightarrow> Inl ValueError)
      else if atom = ''first'' then Inr [0]
      else if atom = ''last'' then Inr [n - 1]
      else (case py_int atom of
              None \<Rightarrow> Inl ValueError
            | Some index0 \<Rightarrow>
                (let index1 = (if index0 < 0 then index0 + (n + 1) else index0)
                 in Inr [index1 - 1])))"

fun parse_atoms :: "regex \<Rightarrow> string list \<Rightarrow> string list \<Rightarrow> int list \<Rightarrow> exn + int list" where
  "parse_atoms re [] items indices = Inr indices"
| "parse_atoms re (a # as) items indices =
     (let atom = strip a in
      if atom = [] then parse_atoms re as items indices
      else (case parse_atom re atom items of
              Inl e \<Rightarrow> Inl e
            | Inr js \<Rightarrow> parse_atoms re as items (indices @ js)))"

definition parse_index :: "regex \<Rightarrow> string option \<Rightarrow> string list \<Rightarrow> exn + int list" where
  "parse_index re index items =
     (case index of
        None \<Rightarrow> Inr []
      | Some s \<Rightarrow> parse_atoms re (split_on CHR '','' s) items [])"

subsection \<open>The store of topics\<close>

text \<open>
  Modelled from the spec: the topic store. The module \<^verbatim>\<open>storage\<close> and the database
  behind \<^verbatim>\<open>Stack.store\<close> are not part of the sources; the specification asks of the store
  only \<^verbatim>\<open>get_items(topic)\<close> and \<^verbatim>\<open>save_items(topic, items)\<close>, a mapping from a topic to
  its ordered list of items that is created on the first write. A topic never written
  has no items (so does \<^verbatim>\<open>get_items\<close> of \<^verbatim>\<open>MongoDBStack\<close> when there is no document), and
  \<^verbatim>\<open>save_items\<close> replaces the whole list of one topic.
\<close>

type_synonym store = "string \<Rightarrow> string list"

definition get_items :: "store \<Rightarrow> string \<Rightarrow> string list" where
  "get_items st topic = st topic"

definition save_items :: "store \<Rightarrow> string \<Rightarrow> string list \<Rightarrow> store" where
  "save_items st topic items = st(topic := items)"

subsection \<open>The help texts\<close>

definition help_stack :: string where
  \<open>help_stack = ''!stack <subcommand> <topic[index]> <item> | subcommand: show, add, pop, shuffle, help | index: [2, 4:-3 (inclusive), "foo", /ba.*r/]''\<close>

definition help_help :: string where
  \<open>help_help = ''!stack help <show, add, pop, shuffle, help, stack, index>: Show help for the given subcommand or feature (default: help)''\<close>

definition help_add :: string where
  \<open>help_add = ''!stack add <topic[index]> item: Add the given item to the given topic before the given (1-based) index (default: 1)''\<close>

definition help_pop :: string where
  \<open>help_pop = ''!stack pop <topic[index]>: Pop any items from the given topic at the given (1-based) index(es) (default: 1)''\<close>

definition help_show :: string where
  \<open>help_show = ''!stack show <topic[index]> <multiline>: Show items from the given topic at the given (1-based) indexes (default: all)''\<close>

definition help_shuffle :: string where
  \<open>help_shuffle = ''!stack shuffle <topic[index]>: Shuffle items from the given topic into the the given (1-based) index order (default: random)''\<close>

definition help_index :: string where
  \<open>help_index = ''!stack indexes must be integers `[2]`, start:end slices (inclusive) `[4:-3]`, `"text"` or a `/regex/` to match, `first` or `last`, or any combination of those separated by commas.''\<close>

definition help_get :: "string \<Rightarrow> string" where
  "help_get key =
     (if key = ''stack'' then help_stack
      else if key = ''help'' then help_help
      else if key = ''add'' then help_add
      else if key = ''pop'' then help_pop
      else if key = ''show'' then help_show
      else if key = ''shuffle'' then help_shuffle
      else if key = ''index'' then help_index
      else help_help)"

definition add_usage :: string where
  \<open>add_usage = ''!stack add <topic[index]> item: You must provide an item to add.''\<close>

subsection \<open>The command line: subcommand, topic, index and payload\<close>

text \<open>
  The first lines of \<^verbatim>\<open>stack\<close>: the text is split at its first space, blank parts
  are dropped, and what is left gives the subcommand and the remainder.
\<close>

definition split_subcommand :: "string \<Rightarrow> string \<times> string" where
  "split_subcommand rest =
     (let atoms = map strip (filter (\<lambda>atom. strip atom \<noteq> []) (split1 CHR '' '' rest))
      in case atoms of
           [] \<Rightarrow> (''show'', [])
         | [a] \<Rightarrow> (a, [])
         | a # b # _ \<Rightarrow> (a, b))"

text \<open>
  Lines 275 to 286: topic, index expression (absent: \<open>None\<close>) and payload of the
  remainder. Unpacking the two parts of the split raises ValueError when there are not
  two; that line is outside the \<^verbatim>\<open>try\<close> block of \<^verbatim>\<open>stack\<close>.
\<close>

definition command_syntax :: "string \<Rightarrow> string \<Rightarrow> exn + (string \<times> string option \<times> string)" where
  "command_syntax nick rest =
     (let start = find_char CHR ''['' rest;
          finish = rfind_char CHR '']'' rest;
          sp = find_char CHR '' '' rest
      in if start \<noteq> - 1 \<and> finish \<noteq> - 1 \<and> start < finish \<and> (sp = - 1 \<or> start < sp)
         then (case map strip (split1 CHR ''['' (slice_to finish rest)) of
                 [topic, index] \<Rightarrow>
                   Inr (if topic = [] then nick else topic, Some index,
                        strip (slice_from (finish + 1) rest))
               | _ \<Rightarrow> Inl ValueError)
         else Inr (nick, None, strip rest))"

subsection \<open>The subcommands\<close>

text \<open>
  add: with no index the item goes to the front; otherwise the distinct indices are
  visited from the largest down (\<^verbatim>\<open>reversed(sorted(set(indices)))\<close>), each one appending
  or calling \<^verbatim>\<open>items.insert(i + 1, new_item)\<close> on the list as it is by then.
\<close>

definition add_step :: "'a \<Rightarrow> 'a list \<Rightarrow> int \<Rightarrow> 'a list" where
  "add_step new_item items i =
     (if i \<ge> int (length items) then items @ [new_item]
      else list_insert (i + 1) new_item items)"

definition add_items :: "int list \<Rightarrow> 'a \<Rightarrow> 'a list \<Rightarrow> 'a list" where
  "add_items indices new_item items =
     (if indices = [] then list_insert 0 new_item items
      else foldl (add_step new_item) items (rev (sort (remdups indices))))"

text \<open>
  pop: the comprehension \<^verbatim>\<open>[items.pop(i) for i in ... if len(items) > i >= 0]\<close>; the
  test reads the length of the list as it is by then. The result is the list left and
  the popped items in the order of their removal.
\<close>

fun pop_loop :: "int list \<Rightarrow> 'a list \<Rightarrow> 'a list \<Rightarrow> 'a list \<times> 'a list" where
  "pop_loop [] items popped = (items, popped)"
| "pop_loop (i # rest) items popped =
     (if int (length items) > i \<and> i \<ge> 0
      then pop_loop rest (take (nat i) items @ drop (nat i + 1) items) (popped @ [items ! nat i])
      else pop_loop rest items popped)"

definition pop_items :: "int list \<Rightarrow> 'a list \<Rightarrow> 'a list \<times> 'a list" where
  "pop_items indices items =
     (let indices1 = (if indices = [] then [0] else indices)
      in pop_loop (rev (sort (remdups indices1))) items [])"

text \<open>\<^verbatim>\<open>a or b\<close> on strings: \<open>b\<close> when \<open>a\<close> is empty.\<close>

definition or_else :: "string \<Rightarrow> string \<Rightarrow> string" where
  "or_else a b = (if a = [] then b else a)"

definition pop_response :: "string list \<Rightarrow> string" where
  "pop_response popped_items =
     or_else (join '' | '' (map (\<lambda>item. ''-: '' @ item) (rev popped_items))) ''(none popped)''"

text \<open>show: the positions (all of them when none is given) that are in range, rendered in their order.\<close>

definition in_range :: "'a list \<Rightarrow> int \<Rightarrow> bool" where
  "in_range items i = (int (length items) > i \<and> i \<ge> 0)"

definition show_items :: "string \<Rightarrow> int list \<Rightarrow> string list \<Rightarrow> string" where
  "show_items sep indices items =
     (let indices1 = (if indices = [] then py_range 0 (int (length items)) else indices)
      in or_else
           (join sep (map (\<lambda>i. str_int (i + 1) @ '': '' @ items ! nat i)
                        (filter (in_range items) indices1)))
           ''(empty)'')"

text \<open>
  shuffle: \<^verbatim>\<open>random.shuffle\<close> when no index is given (the permutation chosen is the
  parameter \<open>rnd\<close>), otherwise the items at the given positions that are in range.
\<close>

definition shuffle_items :: "('a list \<Rightarrow> 'a list) \<Rightarrow> int list \<Rightarrow> 'a list \<Rightarrow> 'a list" where
  "shuffle_items rnd indices items =
     (if indices = [] then rnd items
      else map (\<lambda>i. items ! nat i) (filter (in_range items) indices))"

definition render_all :: "string list \<Rightarrow> string" where
  "render_all items =
     or_else (join '' | '' (map (\<lambda>(i, item). str_int (int i) @ '': '' @ item) (enumerate 1 items)))
       ''(empty)''"

subsection \<open>The command \<^verbatim>\<open>stack\<close>\<close>

text \<open>
  The result is the exception that leaves the command, or the response (\<open>None\<close> where
  the function ends without a \<^verbatim>\<open>return\<close>) together with the store afterwards.
\<close>

definition run_subcommand ::
  "(string list \<Rightarrow> string list) \<Rightarrow> store \<Rightarrow> string \<Rightarrow> string \<Rightarrow> string \<Rightarrow>
     string list \<Rightarrow> int list \<Rightarrow> string option \<times> store" where
  "run_subcommand rnd st subcommand topic new_item items indices =
     (if subcommand = ''add'' then
        (if new_item = [] then (Some add_usage, st)
         else (None, save_items st topic (add_items indices new_item items)))
      else if subcommand = ''pop'' then
        (let (items1, popped_items) = pop_items indices items
         in (Some (pop_response popped_items), save_items st topic items1))
      else if subcommand = ''show'' then
        (if new_item \<noteq> [] \<and> \<not> startswith ''multiline'' new_item then (Some help_show, st)
         else (Some (show_items (if new_item \<noteq> [] then [CHR 0x0A] else '' | '') indices items), st))
      else if subcommand = ''shuffle'' then
        (let items1 = shuffle_items rnd indices items
         in (Some (render_all items1), save_items st topic items1))
      else if subcommand = ''help'' then (Some (help_get new_item), st)
      else (Some help_stack, st))"

definition stack ::
  "regex \<Rightarrow> (string list \<Rightarrow> string list) \<Rightarrow> store \<Rightarrow> string \<Rightarrow> string \<Rightarrow>
     exn + (string option \<times> store)" where
  "stack re rnd st nick rest0 =
     (let (subcommand, rest) = split_subcommand rest0
      in case command_syntax nick rest of
           Inl e \<Rightarrow> Inl e
         | Inr (topic, index, new_item) \<Rightarrow>
             (let items = get_items st topic
              in case parse_index re index items of
                   Inl ValueError \<Rightarrow> Inr (Some help_index, st)
                 | Inl ReError \<Rightarrow> Inl ReError
                 | Inr indices \<Rightarrow>
                     Inr (run_subcommand rnd st subcommand topic new_item items indices)))"

subsection \<open>Notions of the specification\<close>

text \<open>
  The conversion of a 1-based number of the index language, which may count from the
  end, to a 0-based position, as the specification words it: a negative value is first
  remapped by adding the length + 1, then the value is shifted by subtracting 1.
\<close>

definition zero_based :: "nat \<Rightarrow> int \<Rightarrow> int" where
  "zero_based n v = (if v < 0 then v + (int n + 1) else v) - 1"

text \<open>
  The bracket form of a remainder text, as the specification words it: the text has a
  first \<open>[\<close> (after \<open>pre\<close>, which holds none) and a last \<open>]\<close> (before \<open>post\<close>, which
  holds none), the first \<open>[\<close> precedes the last \<open>]\<close> (\<open>mid\<close> lies between them), and no
  space stands before the first \<open>[\<close>.
\<close>

definition bracket_form :: "string \<Rightarrow> string \<Rightarrow> string \<Rightarrow> string \<Rightarrow> bool" where
  "bracket_form rest pre mid post =
     (rest = pre @ CHR ''['' # mid @ CHR '']'' # post \<and>
      CHR ''['' \<notin> set pre \<and> CHR '' '' \<notin> set pre \<and> CHR '']'' \<notin> set post)"

text \<open>
  What show renders, as the specification words it: the given positions (all positions,
  ascending, when none is given), in their order and with repetitions, without those
  outside \<open>0 \<le> i < length\<close>, each as its 1-based position, a colon and the item.
\<close>

definition show_entries :: "int list \<Rightarrow> string list \<Rightarrow> string list" where
  "show_entries indices items =
     map (\<lambda>i. str_int (i + 1) @ '': '' @ items ! nat i)
       (filter (\<lambda>i. 0 \<le> i \<and> i < int (length items))
          (if indices = [] then map int [0..<length items] else indices))"

text \<open>
  What shuffle keeps, as the specification words it: for each given position in turn,
  the item at that position when the position is in range, and nothing otherwise.
\<close>

definition pick_positions :: "int list \<Rightarrow> 'a list \<Rightarrow> 'a list" where
  "pick_positions indices items =
     concat (map (\<lambda>i. if 0 \<le> i \<and> i < int (length items) then [items ! nat i] else []) indices)"

text \<open>
  What pop removes and what it leaves, as the specification words it: the positions asked
  for are the given ones, or position 0 when none is given; the items at the positions
  asked for are removed, each once, and listed in ascending position; the others stay.
\<close>

definition pop_targets :: "int list \<Rightarrow> int set" where
  "pop_targets indices = set (if indices = [] then [0] else indices)"

definition removed_items :: "int list \<Rightarrow> 'a list \<Rightarrow> 'a list" where
  "removed_items indices items =
     map (\<lambda>k. items ! k) (filter (\<lambda>k. int k \<in> pop_targets indices) [0..<length items])"

definition kept_items :: "int list \<Rightarrow> 'a list \<Rightarrow> 'a list" where
  "kept_items indices items =
     map (\<lambda>k. items ! k) (filter (\<lambda>k. int k \<notin> pop_targets indices) [0..<length items])"










section \<open>Verified properties\<close>

subsection \<open>Substring search and the positions of a scan\<close>

lemma startswith_iff: "startswith s p \<longleftrightarrow> (\<exists>post. s = p @ post)"
  unfolding startswith_def
  by (metis append_eq_conv_conj append_take_drop_id)

lemma contains_Nil: "contains [] s"
  by (cases s) (simp_all add: startswith_def)

lemma contains_iff: "contains sub s \<longleftrightarrow> (\<exists>pre post. s = pre @ sub @ post)"
proof (induction s)
  case Nil
  then show ?case by auto
next
  case (Cons c cs)
  show ?case
  proof
    assume "contains sub (c # cs)"
    then consider "startswith (c # cs) sub" | "contains sub cs" by auto
    then show "\<exists>pre post. c # cs = pre @ sub @ post"
    proof cases
      case 1
      then obtain post where "c # cs = sub @ post" by (auto simp: startswith_iff)
      then have "c # cs = [] @ sub @ post" by simp
      then show ?thesis by blast
    next
      case 2
      then obtain pre post where "cs = pre @ sub @ post" using Cons.IH by auto
      then have "c # cs = (c # pre) @ sub @ post" by simp
      then show ?thesis by blast
    qed
  next
    assume "\<exists>pre post. c # cs = pre @ sub @ post"
    then obtain pre post where e: "c # cs = pre @ sub @ post" by auto
    show "contains sub (c # cs)"
    proof (cases pre)
      case Nil
      then have "startswith (c # cs) sub" using e by (simp add: startswith_iff)
      then show ?thesis by simp
    next
      case (Cons p ps)
      then have "cs = ps @ sub @ post" using e by simp
      then show ?thesis using Cons.IH by auto
    qed
  qed
qed

lemma enumerate_filter_snd:
  "map fst (filter (\<lambda>(i, x). P x) (enumerate 0 xs)) = filter (\<lambda>i. P (xs ! i)) [0..<length xs]"
proof -
  have "enumerate 0 xs = map (\<lambda>i. (i, xs ! i)) [0..<length xs]"
    by (rule nth_equalityI) (simp_all add: nth_enumerate_eq)
  then show ?thesis by (simp add: filter_map comp_def)
qed

lemma quoted_scan_eq:
  "quoted_scan t items = map int (filter (\<lambda>i. contains t (lower (items ! i))) [0..<length items])"
proof -
  have "quoted_scan t items
      = map int (map fst (filter (\<lambda>(i, item). contains t (lower item)) (enumerate 0 items)))"
    by (simp add: quoted_scan_def case_prod_unfold comp_def)
  then show ?thesis by (simp only: enumerate_filter_snd)
qed

subsection \<open>Stripping and splitting\<close>

lemma dropWhile_rev_keep:
  "\<not> P a \<Longrightarrow> rev (dropWhile P (rev (a # xs))) = a # rev (dropWhile P (rev xs))"
  using dropWhile_append3 [of P a "rev xs" "[]"] by simp

lemma strip_Cons_keep: "\<not> is_space a \<Longrightarrow> strip (a # xs) = a # rev (dropWhile is_space (rev xs))"
  using dropWhile_append3 [of is_space a "rev xs" "[]"] by (simp add: strip_def)

lemma strip_between: "\<not> is_space a \<Longrightarrow> \<not> is_space b \<Longrightarrow> strip (a # t @ [b]) = a # t @ [b]"
  by (simp add: strip_Cons_keep)

lemma strip_single: "\<not> is_space a \<Longrightarrow> strip [a] = [a]"
  by (simp add: strip_Cons_keep)

lemma split_on_no_sep: "sep \<notin> set s \<Longrightarrow> split_on sep s = [s]"
  by (induction s) auto

lemma parse_index_single:
  assumes "CHR '','' \<notin> set s" and "strip s \<noteq> []"
  shows "parse_index re (Some s) items = parse_atom re (strip s) items"
  using assms by (simp add: parse_index_def split_on_no_sep Let_def split: sum.splits)

lemma quote_not_space: "\<not> is_space (CHR 0x27)" "\<not> is_space (CHR 0x22)"
  by (simp_all add: is_space_def)

subsection \<open>Quoted atoms\<close>

lemma slice_inner: "slice 1 (- 1) (q # t @ [q']) = t"
  by (simp add: slice_def clamp_index_def)

lemma slice_single: "slice 1 (- 1) [q] = []"
  by (simp add: slice_def clamp_index_def)

lemma quoted_ends: "startswith (q # t @ [q']) [q]" "endswith (q # t @ [q']) [q']"
  by (simp_all add: startswith_def endswith_def)

lemma parse_atom_quoted:
  assumes "q = CHR 0x27 \<or> q = CHR 0x22"
  shows "parse_atom re (q # t @ [q]) items = Inr (quoted_scan (lower t) items)"
  using assms unfolding parse_atom_def
  by (auto simp add: quoted_ends slice_inner Let_def)

lemma parse_atom_quote_char:
  assumes "q = CHR 0x27 \<or> q = CHR 0x22"
  shows "parse_atom re [q] items = Inr (quoted_scan [] items)"
  using assms unfolding parse_atom_def
  by (auto simp add: startswith_def endswith_def slice_single Let_def lower_def)

text \<open>
  Claim C7. A quoted atom, the text between two single or two double quotes, contributes
  the position of every item whose lower-cased text has the lower-cased quoted text as a
  contiguous part, in ascending order; so does an index expression that consists of this
  one atom (the text then holds no comma, which would end the atom).
\<close>

theorem quoted_atom_positions:
  assumes "q = CHR 0x27 \<or> q = CHR 0x22"
  shows "parse_atom re (q # text @ [q]) items =
           Inr (map int (filter (\<lambda>i. \<exists>pre post. lower (items ! i) = pre @ lower text @ post)
                           [0..<length items]))
         \<and> (CHR '','' \<notin> set text \<longrightarrow>
              parse_index re (Some (q # text @ [q])) items =
                Inr (map int (filter (\<lambda>i. \<exists>pre post. lower (items ! i) = pre @ lower text @ post)
                                [0..<length items])))"
proof -
  have a: "parse_atom re (q # text @ [q]) items =
           Inr (map int (filter (\<lambda>i. \<exists>pre post. lower (items ! i) = pre @ lower text @ post)
                           [0..<length items]))"
    using assms by (simp only: parse_atom_quoted quoted_scan_eq contains_iff)
  have ns: "\<not> is_space q" using assms quote_not_space by auto
  have nc: "q \<noteq> CHR '',''" using assms by auto
  have "parse_index re (Some (q # text @ [q])) items = parse_atom re (q # text @ [q]) items"
    if "CHR '','' \<notin> set text"
    using parse_index_single [of "q # text @ [q]" re items] that nc ns
    by (simp add: strip_between)
  with a show ?thesis by simp
qed

theorem quoted_atom_positions_witness:
  "parse_index (\<lambda>p s. None) (Some (CHR 0x22 # ''B'' @ [CHR 0x22])) [''abc'', ''xyz'', ''Bob'']
     = Inr [0, 2]"
proof -
  have l: "lower ''B'' = ''b''" "lower ''abc'' = ''abc''" "lower ''xyz'' = ''xyz''"
    "lower ''Bob'' = ''bob''"
    by code_simp+
  have "CHR '','' \<notin> set ''B''" by simp
  with quoted_atom_positions [of "CHR 0x22" "\<lambda>p s. None" "''B''" "[''abc'', ''xyz'', ''Bob'']",
      folded contains_iff]
  have "parse_index (\<lambda>p s. None) (Some (CHR 0x22 # ''B'' @ [CHR 0x22])) [''abc'', ''xyz'', ''Bob'']
      = Inr (map int (filter (\<lambda>i. contains (lower ''B'') (lower ([''abc'', ''xyz'', ''Bob''] ! i)))
                           [0..<length [''abc'', ''xyz'', ''Bob'']]))"
    by blast
  then show ?thesis
    by (simp add: l upt_conv_Cons startswith_def)
qed

text \<open>
  Claim C10. The atom that is one quote character alone is accepted: it starts and ends
  with the quote, the text between is empty, and the empty text is part of every item,
  so the atom resolves to every position from 0 to the length - 1, in ascending order.
\<close>

theorem lone_quote_selects_all:
  "parse_index re (Some [CHR 0x27]) items = Inr (map int [0..<length items])
   \<and> parse_index re (Some [CHR 0x22]) items = Inr (map int [0..<length items])"
proof -
  have "parse_index re (Some [q]) items = Inr (map int [0..<length items])"
    if q: "q = CHR 0x27 \<or> q = CHR 0x22" for q
  proof -
    have "\<not> is_space q" "q \<noteq> CHR '',''" using q quote_not_space by auto
    then have "parse_index re (Some [q]) items = parse_atom re [q] items"
      using parse_index_single [of "[q]" re items] by (simp add: strip_single)
    then show ?thesis
      using q by (simp add: parse_atom_quote_char quoted_scan_eq contains_Nil)
  qed
  then show ?thesis by simp
qed

theorem lone_quote_selects_all_witness:
  "parse_index (\<lambda>p s. None) (Some [CHR 0x27]) [''a'', ''b'', ''c''] = Inr [0, 1, 2]"
  using lone_quote_selects_all [of "\<lambda>p s. None" "[''a'', ''b'', ''c'']"]
  by (simp add: upt_conv_Cons)

subsection \<open>Range atoms\<close>

lemma int_body_ok_first: "int_body_ok (c # r) \<Longrightarrow> is_digit c"
  by (cases r) auto

lemma py_int_first:
  assumes "py_int (c # r) = Some a" and "\<not> int_space c"
  shows "c = CHR ''-'' \<or> c = CHR ''+'' \<or> is_digit c"
proof (rule ccontr)
  assume n: "\<not> (c = CHR ''-'' \<or> c = CHR ''+'' \<or> is_digit c)"
  define r' where "r' = rev (dropWhile int_space (rev r))"
  have "rev (dropWhile int_space (rev (dropWhile int_space (c # r)))) = c # r'"
    using assms(2) dropWhile_append3 [of int_space c "rev r" "[]"] by (simp add: r'_def)
  then have "py_int (c # r) = (if int_body_ok (c # r') then Some (int_body_value (c # r')) else None)"
    using n by (simp add: py_int_def)
  moreover have "\<not> int_body_ok (c # r')"
    using n int_body_ok_first by blast
  ultimately show False using assms(1) by simp
qed

lemma special_chars:
  "c = CHR 0x27 \<or> c = CHR 0x22 \<or> c = CHR ''/'' \<Longrightarrow>
     \<not> is_space c \<and> \<not> int_space c \<and> \<not> is_digit c \<and> c \<noteq> CHR ''-'' \<and> c \<noteq> CHR ''+'' \<and> c \<noteq> CHR '':''"
  by (auto simp: is_space_def int_space_def is_digit_def)

lemma range_part_first:
  assumes "if strip s = [] then v = d else py_int (strip s) = Some v"
    and "c = CHR 0x27 \<or> c = CHR 0x22 \<or> c = CHR ''/''"
  shows "\<not> startswith (s @ CHR '':'' # t) [c]"
proof (cases s)
  case Nil
  then show ?thesis using assms(2) by (auto simp: startswith_def)
next
  case (Cons x xs)
  have "x \<noteq> c"
  proof
    assume "x = c"
    then have ns: "\<not> is_space x" "\<not> int_space x" "\<not> is_digit x" "x \<noteq> CHR ''-''" "x \<noteq> CHR ''+''"
      using special_chars [OF assms(2)] by auto
    then have st: "strip s = x # rev (dropWhile is_space (rev xs))"
      using Cons by (simp add: strip_Cons_keep)
    then have "py_int (x # rev (dropWhile is_space (rev xs))) = Some v"
      using assms(1) by simp
    from py_int_first [OF this ns(2)] ns show False by simp
  qed
  then show ?thesis using Cons by (simp add: startswith_def)
qed

lemma takeWhile_upto_sep: "sep \<notin> set a \<Longrightarrow> takeWhile (\<lambda>x. x \<noteq> sep) (a @ sep # b) = a"
  by (induction a) auto

lemma dropWhile_upto_sep: "sep \<notin> set a \<Longrightarrow> dropWhile (\<lambda>x. x \<noteq> sep) (a @ sep # b) = sep # b"
  by (induction a) auto

lemma split1_at:
  assumes "sep \<notin> set a"
  shows "split1 sep (a @ sep # b) = [a, b]"
  using assms by (simp add: split1_def takeWhile_upto_sep dropWhile_upto_sep)

text \<open>
  Claim C4. A range atom \<open>A:B\<close> against a list of length \<open>n\<close>: the text before the first
  colon is \<open>A\<close>, the text after it is \<open>B\<close>; a part that is blank stands for 1 (for \<open>A\<close>) or
  for \<open>n\<close> (for \<open>B\<close>), any other part is read as an integer. Each value is converted to a
  0-based position (a negative one remapped by adding \<open>n + 1\<close>, then 1 subtracted), and the
  atom contributes the integers from the converted \<open>A\<close> to the converted \<open>B\<close>, ascending;
  when the converted \<open>A\<close> exceeds the converted \<open>B\<close> that is the empty list, not an error.
\<close>

theorem range_atom_positions:
  assumes "CHR '':'' \<notin> set sa"
    and "if strip sa = [] then a = 1 else py_int (strip sa) = Some a"
    and "if strip sb = [] then b = int (length items) else py_int (strip sb) = Some b"
  shows "parse_atom re (sa @ CHR '':'' # sb) items =
           Inr [zero_based (length items) a .. zero_based (length items) b]
         \<and> (zero_based (length items) b < zero_based (length items) a \<longrightarrow>
              parse_atom re (sa @ CHR '':'' # sb) items = Inr [])"
proof -
  let ?atom = "sa @ CHR '':'' # sb"
  have nq: "\<not> startswith ?atom [CHR 0x27]" "\<not> startswith ?atom [CHR 0x22]"
    "\<not> startswith ?atom ''/''"
    using range_part_first [OF assms(2)] by simp_all
  have sp: "map strip (split1 CHR '':'' ?atom) = [strip sa, strip sb]"
    using assms(1) by (simp add: split1_at)
  have "parse_atom re ?atom items =
          Inr [zero_based (length items) a .. zero_based (length items) b]"
    unfolding parse_atom_def using nq assms(2,3)
    by (simp add: sp Let_def py_range_def zero_based_def)
  then show ?thesis by simp
qed

theorem range_atom_positions_witness:
  "parse_atom (\<lambda>p s. None) ''-2:'' [''a'', ''b'', ''c''] = Inr [1, 2]
   \<and> parse_atom (\<lambda>p s. None) ''3:1'' [''a'', ''b'', ''c''] = Inr []"
proof -
  have h1: "CHR '':'' \<notin> set ''-2''" "CHR '':'' \<notin> set ''3''" by simp_all
  have s: "strip ''-2'' = ''-2''" "strip '''' = ''''" "strip ''3'' = ''3''" "strip ''1'' = ''1''"
    by code_simp+
  have p: "py_int ''-2'' = Some (- 2)" "py_int ''3'' = Some 3" "py_int ''1'' = Some 1"
    by code_simp+
  have h2: "if strip ''-2'' = [] then (- 2 :: int) = 1 else py_int (strip ''-2'') = Some (- 2)"
    by (simp add: s p)
  have h3: "if strip '''' = [] then (3 :: int) = int (length [''a'', ''b'', ''c''])
            else py_int (strip '''') = Some 3"
    by (simp add: s)
  have h4: "if strip ''3'' = [] then (3 :: int) = 1 else py_int (strip ''3'') = Some 3"
    by (simp add: s p)
  have h5: "if strip ''1'' = [] then (1 :: int) = int (length [''a'', ''b'', ''c''])
            else py_int (strip ''1'') = Some 1"
    by (simp add: s p)
  have u: "[1 .. 2 :: int] = [1, 2]" by (simp add: upto_rec1)
  from range_atom_positions [OF h1(1) h2 h3, of "\<lambda>p s. None"]
       range_atom_positions [OF h1(2) h4 h5, of "\<lambda>p s. None"]
  show ?thesis by (simp add: zero_based_def u)
qed

subsection \<open>Topic, index and payload\<close>

lemma find_char_at: "c \<notin> set pre \<Longrightarrow> find_char c (pre @ c # r) = int (length pre)"
  by (simp add: find_char_def takeWhile_upto_sep)

lemma rfind_char_at:
  assumes "c \<notin> set post"
  shows "rfind_char c (xs @ c # post) = int (length xs)"
proof -
  have "takeWhile (\<lambda>x. x \<noteq> c) (rev post @ c # rev xs) = rev post"
    using assms takeWhile_upto_sep [of c "rev post" "rev xs"] by simp
  then show ?thesis by (simp add: rfind_char_def)
qed

lemma find_char_absent: "c \<notin> set s \<Longrightarrow> find_char c s = - 1"
  by (simp add: find_char_def)

lemma find_char_nonneg: "c \<in> set s \<Longrightarrow> 0 \<le> find_char c s"
  by (simp add: find_char_def)

lemma find_char_after:
  assumes "c \<notin> set pre" and "c \<noteq> d" and "c \<in> set (pre @ d # r)"
  shows "int (length pre) < find_char c (pre @ d # r)"
proof -
  have "takeWhile (\<lambda>x. x \<noteq> c) (pre @ d # r) = pre @ d # takeWhile (\<lambda>x. x \<noteq> c) r"
    using assms(1,2) by (induction pre) auto
  then show ?thesis using assms(3) by (simp add: find_char_def)
qed

lemma find_char_split:
  assumes "c \<in> set s"
  shows "\<exists>pre r. s = pre @ c # r \<and> c \<notin> set pre \<and> find_char c s = int (length pre)"
proof -
  from split_list_first [OF assms] obtain pre r where "s = pre @ c # r" "c \<notin> set pre" by blast
  then show ?thesis using find_char_at by blast
qed

lemma rfind_char_split:
  assumes "c \<in> set s"
  shows "\<exists>xs post. s = xs @ c # post \<and> c \<notin> set post \<and> rfind_char c s = int (length xs)"
proof -
  from split_list_last [OF assms] obtain xs post where "s = xs @ c # post" "c \<notin> set post" by blast
  then show ?thesis using rfind_char_at by blast
qed

lemma rfind_char_absent: "c \<notin> set s \<Longrightarrow> rfind_char c s = - 1"
  by (simp add: rfind_char_def)

lemma slice_to_length: "slice_to (int (length xs)) (xs @ ys) = xs"
  by (simp add: slice_to_def clamp_index_def)

lemma slice_from_length: "slice_from (int (length xs) + 1) (xs @ y # ys) = ys"
  by (simp add: slice_from_def clamp_index_def nat_add_distrib)

lemma command_syntax_bracket:
  assumes "bracket_form rest pre mid post"
  shows "command_syntax nick rest =
           Inr (if strip pre = [] then nick else strip pre, Some (strip mid), strip post)"
proof -
  from assms have r: "rest = pre @ CHR ''['' # mid @ CHR '']'' # post"
    and np: "CHR ''['' \<notin> set pre" and ns: "CHR '' '' \<notin> set pre" and nq: "CHR '']'' \<notin> set post"
    by (simp_all add: bracket_form_def)
  have start: "find_char CHR ''['' rest = int (length pre)"
    using np by (simp add: r find_char_at)
  have r2: "rest = (pre @ CHR ''['' # mid) @ CHR '']'' # post" by (simp add: r)
  have finish: "rfind_char CHR '']'' rest = int (length (pre @ CHR ''['' # mid))"
    unfolding r2 using nq by (rule rfind_char_at)
  have sp: "find_char CHR '' '' rest = - 1 \<or> int (length pre) < find_char CHR '' '' rest"
  proof (cases "CHR '' '' \<in> set rest")
    case True
    then show ?thesis using find_char_after [of "CHR '' ''" pre "CHR ''[''" "mid @ CHR '']'' # post"] ns
      by (simp add: r)
  next
    case False
    then show ?thesis by (simp add: find_char_absent)
  qed
  have st: "slice_to (rfind_char CHR '']'' rest) rest = pre @ CHR ''['' # mid"
    unfolding finish unfolding r2 by (rule slice_to_length)
  have sf: "slice_from (rfind_char CHR '']'' rest + 1) rest = post"
    unfolding finish unfolding r2 by (rule slice_from_length)
  have sl: "split1 CHR ''['' (pre @ CHR ''['' # mid) = [pre, mid]"
    using np by (rule split1_at)
  have cond: "find_char CHR ''['' rest \<noteq> - 1 \<and> rfind_char CHR '']'' rest \<noteq> - 1 \<and>
        find_char CHR ''['' rest < rfind_char CHR '']'' rest \<and>
        (find_char CHR '' '' rest = - 1 \<or> find_char CHR ''['' rest < find_char CHR '' '' rest)"
    using sp by (simp add: start finish)
  show ?thesis
    unfolding command_syntax_def Let_def
    by (simp only: cond st sf sl if_True) simp
qed

lemma command_syntax_cond_form:
  assumes "find_char CHR ''['' rest \<noteq> - 1" and "rfind_char CHR '']'' rest \<noteq> - 1"
    and "find_char CHR ''['' rest < rfind_char CHR '']'' rest"
    and "find_char CHR '' '' rest = - 1 \<or> find_char CHR ''['' rest < find_char CHR '' '' rest"
  shows "\<exists>pre mid post. bracket_form rest pre mid post"
proof -
  have "CHR ''['' \<in> set rest" using assms(1) find_char_absent by blast
  then obtain pre r where r: "rest = pre @ CHR ''['' # r" and np: "CHR ''['' \<notin> set pre"
    and start: "find_char CHR ''['' rest = int (length pre)"
    using find_char_split by blast
  have "CHR '']'' \<in> set rest" using assms(2) rfind_char_absent by blast
  then obtain xs post where x: "rest = xs @ CHR '']'' # post" and nq: "CHR '']'' \<notin> set post"
    and finish: "rfind_char CHR '']'' rest = int (length xs)"
    using rfind_char_split by blast
  have len: "length pre < length xs" using assms(3) start finish by simp
  have "pre @ CHR ''['' # r = xs @ CHR '']'' # post" using r x by simp
  then obtain us where "(pre @ us = xs \<and> CHR ''['' # r = us @ CHR '']'' # post) \<or>
      (pre = xs @ us \<and> us @ CHR ''['' # r = CHR '']'' # post)"
    by (auto simp: append_eq_append_conv2)
  then have u: "pre @ us = xs" "CHR ''['' # r = us @ CHR '']'' # post"
    using len by auto
  then have "us \<noteq> []" using len by auto
  then obtain mid where m: "us = CHR ''['' # mid" using u(2) by (cases us) auto
  have form: "rest = pre @ CHR ''['' # mid @ CHR '']'' # post"
    using x u(1) m by simp
  have ns: "CHR '' '' \<notin> set pre"
  proof
    assume a: "CHR '' '' \<in> set pre"
    then have "CHR '' '' \<in> set rest" using r by simp
    then have "find_char CHR '' '' rest = int (length (takeWhile (\<lambda>x. x \<noteq> CHR '' '') rest))"
      by (simp add: find_char_def)
    moreover have "takeWhile (\<lambda>x. x \<noteq> CHR '' '') rest = takeWhile (\<lambda>x. x \<noteq> CHR '' '') pre"
      using a unfolding r by (simp add: takeWhile_append1)
    moreover have "length (takeWhile (\<lambda>x. x \<noteq> CHR '' '') pre) \<le> length pre"
      by (rule length_takeWhile_le)
    ultimately show False using assms(4) start by simp
  qed
  show ?thesis using form np ns nq unfolding bracket_form_def by blast
qed

lemma command_syntax_plain:
  assumes "\<forall>pre mid post. \<not> bracket_form rest pre mid post"
  shows "command_syntax nick rest = Inr (nick, None, strip rest)"
proof -
  have "\<not> (find_char CHR ''['' rest \<noteq> - 1 \<and> rfind_char CHR '']'' rest \<noteq> - 1 \<and>
        find_char CHR ''['' rest < rfind_char CHR '']'' rest \<and>
        (find_char CHR '' '' rest = - 1 \<or> find_char CHR ''['' rest < find_char CHR '' '' rest))"
    using assms command_syntax_cond_form by blast
  then show ?thesis
    unfolding command_syntax_def Let_def by (simp only: if_False)
qed

lemma bracket_only_syntax:
  assumes "CHR ''['' \<notin> set e" and "CHR '']'' \<notin> set e" and "strip e = e"
  shows "command_syntax nick (CHR ''['' # e @ '']'') = Inr (nick, Some e, [])"
proof -
  have "bracket_form (CHR ''['' # e @ '']'') [] e []"
    by (simp add: bracket_form_def)
  from command_syntax_bracket [OF this, of nick] show ?thesis
    using assms(3) by (simp add: strip_def)
qed

text \<open>
  Claim C6. When the remainder has the bracket form (a first \<open>[\<close> with no space before
  it, and the last \<open>]\<close> after it), the topic is the trimmed text before the first \<open>[\<close>, or
  the default topic when that is empty, the index expression is the trimmed text between
  the first \<open>[\<close> and the last \<open>]\<close>, and the payload is the trimmed text after the last
  \<open>]\<close>. In every other case the topic is the default topic, the index expression is
  absent and the payload is the whole trimmed remainder.
\<close>

theorem command_syntax_cases:
  "(bracket_form rest pre mid post \<longrightarrow>
      command_syntax nick rest =
        Inr (if strip pre = [] then nick else strip pre, Some (strip mid), strip post))
   \<and> ((\<forall>pre mid post. \<not> bracket_form rest pre mid post) \<longrightarrow>
      command_syntax nick rest = Inr (nick, None, strip rest))"
  using command_syntax_bracket command_syntax_plain by blast

theorem command_syntax_cases_witness:
  "command_syntax ''me'' ''t[1] bar [x] baz'' = Inr (''t'', Some ''1] bar [x'', ''baz'')
   \<and> command_syntax ''me'' ''foo bar [x] baz'' = Inr (''me'', None, ''foo bar [x] baz'')"
proof -
  have b: "bracket_form ''t[1] bar [x] baz'' ''t'' ''1] bar [x'' '' baz''"
    by (simp add: bracket_form_def)
  have n: "\<forall>pre mid post. \<not> bracket_form ''foo bar [x] baz'' pre mid post"
  proof (intro allI notI)
    fix pre mid post
    assume f: "bracket_form ''foo bar [x] baz'' pre mid post"
    then have e: "''foo bar [x] baz'' = pre @ CHR ''['' # (mid @ CHR '']'' # post)"
      and np: "CHR ''['' \<notin> set pre" and ns: "CHR '' '' \<notin> set pre"
      by (simp_all add: bracket_form_def)
    have "takeWhile (\<lambda>x. x \<noteq> CHR ''['') (pre @ CHR ''['' # (mid @ CHR '']'' # post)) = pre"
      using np by (rule takeWhile_upto_sep)
    then have "takeWhile (\<lambda>x. x \<noteq> CHR ''['') ''foo bar [x] baz'' = pre"
      using e by simp
    then have "pre = ''foo bar ''" by simp
    then show False using ns by simp
  qed
  have s: "strip ''t'' = ''t''" "strip ''1] bar [x'' = ''1] bar [x''" "strip '' baz'' = ''baz''"
    "strip ''foo bar [x] baz'' = ''foo bar [x] baz''"
    by code_simp+
  from command_syntax_cases [of "''t[1] bar [x] baz''" "''t''" "''1] bar [x''" "'' baz''" "''me''"]
       command_syntax_cases [of "''foo bar [x] baz''" "''t''" "''1] bar [x''" "'' baz''" "''me''"]
       b n
  show ?thesis by (simp add: s)
qed

subsection \<open>show\<close>

lemma py_range_upt: "py_range 0 (int n) = map int [0..<n]"
proof (induction n)
  case 0
  then show ?case by (simp add: py_range_def)
next
  case (Suc n)
  have "[0 .. int (Suc n) - 1] = [0 .. int n - 1] @ [int n]"
    using upto_rec2 [of 0 "int n"] by simp
  then show ?case using Suc by (simp add: py_range_def)
qed

lemma join_Nil_iff:
  assumes "\<forall>e \<in> set es. e \<noteq> []"
  shows "join sep es = [] \<longleftrightarrow> es = []"
proof (cases es)
  case Nil
  then show ?thesis by simp
next
  case (Cons e es')
  then show ?thesis using assms by (cases es') auto
qed

lemma or_else_join:
  assumes "\<forall>e \<in> set es. e \<noteq> []"
  shows "or_else (join sep es) d = (if es = [] then d else join sep es)"
  using join_Nil_iff [OF assms] by (simp add: or_else_def)

lemma show_items_eq:
  "show_items sep indices items =
     (if show_entries indices items = [] then ''(empty)''
      else join sep (show_entries indices items))"
proof -
  have e: "\<forall>e \<in> set (show_entries indices items). e \<noteq> []"
    by (auto simp: show_entries_def)
  have "show_items sep indices items = or_else (join sep (show_entries indices items)) ''(empty)''"
    by (simp add: show_items_def show_entries_def py_range_upt in_range_def Let_def conj_commute
             cong: filter_cong)
  then show ?thesis using or_else_join [OF e] by simp
qed

lemma show_no_match_example:
  assumes "st nick = [''a'', ''b'', ''c'']"
  shows "stack re rnd st nick (''show ['' @ [CHR 0x22] @ ''z'' @ [CHR 0x22] @ '']'') =
           Inr (Some ''1: a | 2: b | 3: c'', st)"
proof -
  let ?e = "CHR 0x22 # ''z'' @ [CHR 0x22]"
  have s: "split_subcommand (''show ['' @ [CHR 0x22] @ ''z'' @ [CHR 0x22] @ '']'')
      = (''show'', CHR ''['' # ?e @ '']'')"
    by code_simp
  have t: "strip ?e = ?e" by code_simp
  have c: "command_syntax nick (CHR ''['' # ?e @ '']'') = Inr (nick, Some ?e, [])"
    using bracket_only_syntax [of ?e nick] t by simp
  have l: "lower ''z'' = ''z''" "lower ''a'' = ''a''" "lower ''b'' = ''b''" "lower ''c'' = ''c''"
    by code_simp+
  have "parse_atom re ?e [''a'', ''b'', ''c''] = Inr (quoted_scan (lower ''z'') [''a'', ''b'', ''c''])"
    by (rule parse_atom_quoted) simp
  then have a: "parse_atom re ?e [''a'', ''b'', ''c''] = Inr []"
    by (simp add: quoted_scan_eq l upt_conv_Cons startswith_def)
  have "CHR '','' \<notin> set ?e" "strip ?e \<noteq> []" using t by simp_all
  from parse_index_single [OF this, of re "[''a'', ''b'', ''c'']"]
  have p: "parse_index re (Some ?e) [''a'', ''b'', ''c''] = Inr []"
    using t a by simp
  have e: "show_items '' | '' [] [''a'', ''b'', ''c''] = ''1: a | 2: b | 3: c''"
    by code_simp
  show ?thesis
    using p by (simp add: stack_def s [simplified] c [simplified] get_items_def assms
                     run_subcommand_def e)
qed


text \<open>
  Claim C8. show never changes the store. With an empty payload it answers with the
  entries of the given positions (all positions, ascending, when none is given; those out
  of range left out; order and repetitions kept; each entry the 1-based position, a colon
  and the item) joined by \<open>" | "\<close>, with a payload that is a non-empty prefix of the word
  multiline the same joined by a newline, and in both cases with \<open>(empty)\<close> when no entry
  is left; any other payload gives the usage text of show. So an index expression that
  resolves to no position at all shows the whole stack: on the stack a, b, c the quoted
  atom \<open>"z"\<close> matches no item and the answer is \<open>1: a | 2: b | 3: c\<close>.
\<close>

theorem show_renders:
  "snd (run_subcommand rnd st ''show'' topic new_item items indices) = st
   \<and> (new_item = [] \<longrightarrow>
        fst (run_subcommand rnd st ''show'' topic new_item items indices) =
          Some (if show_entries indices items = [] then ''(empty)''
                else join '' | '' (show_entries indices items)))
   \<and> (new_item \<noteq> [] \<and> (\<exists>rest. ''multiline'' = new_item @ rest) \<longrightarrow>
        fst (run_subcommand rnd st ''show'' topic new_item items indices) =
          Some (if show_entries indices items = [] then ''(empty)''
                else join [CHR 0x0A] (show_entries indices items)))
   \<and> (new_item \<noteq> [] \<and> \<not> (\<exists>rest. ''multiline'' = new_item @ rest) \<longrightarrow>
        fst (run_subcommand rnd st ''show'' topic new_item items indices) = Some help_show)
   \<and> (st nick = [''a'', ''b'', ''c''] \<longrightarrow>
        stack re rnd st nick (''show ['' @ [CHR 0x22] @ ''z'' @ [CHR 0x22] @ '']'') =
          Inr (Some ''1: a | 2: b | 3: c'', st))"
proof -
  have p: "startswith ''multiline'' new_item \<longleftrightarrow> (\<exists>rest. ''multiline'' = new_item @ rest)"
    by (rule startswith_iff)
  have r: "run_subcommand rnd st ''show'' topic new_item items indices =
      (if new_item \<noteq> [] \<and> \<not> startswith ''multiline'' new_item then (Some help_show, st)
       else (Some (show_items (if new_item \<noteq> [] then [CHR 0x0A] else '' | '') indices items), st))"
    by (simp add: run_subcommand_def)
  have "st nick = [''a'', ''b'', ''c''] \<longrightarrow>
        stack re rnd st nick (''show ['' @ [CHR 0x22] @ ''z'' @ [CHR 0x22] @ '']'') =
          Inr (Some ''1: a | 2: b | 3: c'', st)"
    using show_no_match_example [of st nick re rnd] by blast
  then show ?thesis
    unfolding r p [symmetric] by (simp add: show_items_eq)
qed

theorem show_renders_witness:
  "run_subcommand (\<lambda>xs. xs) (\<lambda>t. [''a'', ''b'', ''c'']) ''show'' ''t'' ''multi''
       [''a'', ''b'', ''c''] [2, 0, 0, 7]
     = (Some (''3: c'' @ [CHR 0x0A] @ ''1: a'' @ [CHR 0x0A] @ ''1: a''), (\<lambda>t. [''a'', ''b'', ''c'']))
   \<and> run_subcommand (\<lambda>xs. xs) (\<lambda>t. [''a'', ''b'', ''c'']) ''show'' ''t'' [] [''a'', ''b'', ''c''] [7]
     = (Some ''(empty)'', (\<lambda>t. [''a'', ''b'', ''c'']))
   \<and> run_subcommand (\<lambda>xs. xs) (\<lambda>t. [''a'', ''b'', ''c'']) ''show'' ''t'' ''x'' [''a'', ''b'', ''c''] []
     = (Some help_show, (\<lambda>t. [''a'', ''b'', ''c'']))"
proof -
  have e1: "show_entries [2, 0, 0, 7] [''a'', ''b'', ''c''] = [''3: c'', ''1: a'', ''1: a'']"
    by code_simp
  have e2: "show_entries [7] [''a'', ''b'', ''c''] = []"
    by code_simp
  have m1: "''multi'' \<noteq> [] \<and> (\<exists>rest. ''multiline'' = ''multi'' @ rest)"
    by simp
  have m2: "''x'' \<noteq> [] \<and> \<not> (\<exists>rest. ''multiline'' = ''x'' @ rest)"
    by simp
  from show_renders [of "\<lambda>xs. xs" "\<lambda>t. [''a'', ''b'', ''c'']" "''t''" "''multi''" "[''a'', ''b'', ''c'']" "[2, 0, 0, 7]"]
       show_renders [of "\<lambda>xs. xs" "\<lambda>t. [''a'', ''b'', ''c'']" "''t''" "[]" "[''a'', ''b'', ''c'']" "[7]"]
       show_renders [of "\<lambda>xs. xs" "\<lambda>t. [''a'', ''b'', ''c'']" "''t''" "''x''" "[''a'', ''b'', ''c'']" "[]"]
       m1 m2
  show ?thesis
    by (simp add: e1 e2 prod_eq_iff)
qed

subsection \<open>shuffle\<close>

lemma pick_positions_eq:
  "pick_positions indices items = map (\<lambda>i. items ! nat i) (filter (in_range items) indices)"
  unfolding pick_positions_def in_range_def
  by (induction indices) auto

lemma shuffle_general:
  assumes "indices \<noteq> []"
  shows "run_subcommand rnd st ''shuffle'' topic new_item items indices =
           (Some (render_all (pick_positions indices items)),
            st(topic := pick_positions indices items))"
  using assms
  by (simp add: run_subcommand_def shuffle_items_def pick_positions_eq save_items_def Let_def)

lemma shuffle_example:
  assumes "st nick = [''a'', ''b'', ''c'']"
  shows "stack re rnd st nick ''shuffle [3,1]'' =
           Inr (Some ''1: c | 2: a'', st(nick := [''c'', ''a'']))"
proof -
  have s: "split_subcommand ''shuffle [3,1]'' = (''shuffle'', ''[3,1]'')"
    by code_simp
  have "bracket_form ''[3,1]'' [] ''3,1'' []"
    by (simp add: bracket_form_def)
  from command_syntax_bracket [OF this, of nick]
  have c: "command_syntax nick ''[3,1]'' = Inr (nick, Some ''3,1'', [])"
    by (simp add: strip_def is_space_def)
  have sp: "split_on CHR '','' ''3,1'' = [''3'', ''1'']" by simp
  have st3: "strip ''3'' = ''3''" "strip ''1'' = ''1''" by code_simp+
  have pi: "py_int ''3'' = Some 3" "py_int ''1'' = Some 1" by code_simp+
  have a3: "parse_atom re ''3'' [''a'', ''b'', ''c''] = Inr [2]"
    by (simp add: parse_atom_def startswith_def endswith_def pi)
  have a1: "parse_atom re ''1'' [''a'', ''b'', ''c''] = Inr [0]"
    by (simp add: parse_atom_def startswith_def endswith_def pi)
  have p: "parse_index re (Some ''3,1'') [''a'', ''b'', ''c''] = Inr [2, 0]"
    by (simp add: parse_index_def sp st3 a3 a1)
  have k: "pick_positions [2, 0] [''a'', ''b'', ''c''] = [''c'', ''a'']"
    by (simp add: pick_positions_def)
  have r: "render_all [''c'', ''a''] = ''1: c | 2: a''"
    by code_simp
  have "run_subcommand rnd st ''shuffle'' nick [] [''a'', ''b'', ''c''] [2, 0] =
          (Some ''1: c | 2: a'', st(nick := [''c'', ''a'']))"
    using shuffle_general [of "[2, 0]" rnd st nick "[]" "[''a'', ''b'', ''c'']"]
    by (simp add: k r)
  then show ?thesis
    by (simp add: stack_def s c get_items_def assms p)
qed

text \<open>
  Claim C3. shuffle with a non-empty list of positions stores, and renders, the list
  that holds for each given position in turn the item at that position when it is in
  range: positions out of range are skipped, items not referred to are dropped, an item
  referred to twice appears twice. On the stack a, b, c the command with index \<open>[3,1]\<close>
  answers \<open>1: c | 2: a\<close> and stores c, a.
\<close>

theorem shuffle_by_positions:
  "(indices \<noteq> [] \<longrightarrow>
      run_subcommand rnd st ''shuffle'' topic new_item items indices =
        (Some (render_all (pick_positions indices items)),
         st(topic := pick_positions indices items)))
   \<and> (st nick = [''a'', ''b'', ''c''] \<longrightarrow>
        stack re rnd st nick ''shuffle [3,1]'' =
          Inr (Some ''1: c | 2: a'', st(nick := [''c'', ''a''])))"
  using shuffle_general shuffle_example by blast

theorem shuffle_by_positions_witness:
  "run_subcommand (\<lambda>xs. xs) (\<lambda>t. [''a'', ''b'', ''c'']) ''shuffle'' ''t'' [] [''a'', ''b'', ''c'']
       [1, 5, 1, - 1, 0]
     = (Some ''1: b | 2: b | 3: a'', (\<lambda>t. [''a'', ''b'', ''c''])(''t'' := [''b'', ''b'', ''a'']))
   \<and> stack (\<lambda>p s. None) (\<lambda>xs. xs) (\<lambda>t. [''a'', ''b'', ''c'']) ''me'' ''shuffle [3,1]''
     = Inr (Some ''1: c | 2: a'', (\<lambda>t. [''a'', ''b'', ''c''])(''me'' := [''c'', ''a'']))"
proof -
  have k: "pick_positions [1, 5, 1, - 1, 0] [''a'', ''b'', ''c''] = [''b'', ''b'', ''a'']"
    by (simp add: pick_positions_def)
  have r: "render_all [''b'', ''b'', ''a''] = ''1: b | 2: b | 3: a''"
    by code_simp
  have n: "[1, 5, 1, - 1, 0] \<noteq> ([] :: int list)" by simp
  from shuffle_by_positions [of "[1, 5, 1, - 1, 0]" "\<lambda>xs. xs" "\<lambda>t. [''a'', ''b'', ''c'']" "''t''" "[]"
        "[''a'', ''b'', ''c'']" "''me''" "\<lambda>p s. None"] n
  show ?thesis by (simp add: k r)
qed

subsection \<open>pop\<close>

lemma nths_filter_upt: "nths xs A = map (\<lambda>k. xs ! k) (filter (\<lambda>k. k \<in> A) [0..<length xs])"
proof -
  have "zip xs [0..<length xs] = map (\<lambda>k. (xs ! k, k)) [0..<length xs]"
    by (rule nth_equalityI) simp_all
  then show ?thesis by (simp add: nths_def filter_map comp_def)
qed

lemma nths_cong_length:
  assumes "\<And>k. k < length xs \<Longrightarrow> k \<in> A \<longleftrightarrow> k \<in> B"
  shows "nths xs A = nths xs B"
proof -
  have "filter (\<lambda>k. k \<in> A) [0..<length xs] = filter (\<lambda>k. k \<in> B) [0..<length xs]"
    by (rule filter_cong) (use assms in auto)
  then show ?thesis by (simp only: nths_filter_upt)
qed

lemma nths_none: "(\<And>k. k < length xs \<Longrightarrow> k \<notin> A) \<Longrightarrow> nths xs A = []"
  using nths_cong_length [of xs A "{}"] by simp

lemma nths_UNIV: "nths xs UNIV = xs"
  by (simp add: nths_all)

lemma nths_split_at:
  assumes "n < length xs"
  shows "nths xs A = nths (take n xs) A @ (if n \<in> A then [xs ! n] else [])
                     @ nths (drop (Suc n) xs) {j. j + Suc n \<in> A}"
proof -
  have "xs = take n xs @ xs ! n # drop (Suc n) xs"
    using assms by (simp add: id_take_nth_drop)
  then have "nths xs A = nths (take n xs @ [xs ! n] @ drop (Suc n) xs) A" by simp
  also have "\<dots> = nths (take n xs) A @ nths [xs ! n] {j. j + n \<in> A}
                   @ nths (drop (Suc n) xs) {j. j + Suc n \<in> A}"
    using assms by (simp add: nths_append nths_Cons min_def)
  finally show ?thesis by simp
qed

lemma nths_removed_at:
  assumes "n < length xs"
  shows "nths (take n xs @ drop (Suc n) xs) A
           = nths (take n xs) A @ nths (drop (Suc n) xs) {j. j + n \<in> A}"
  using assms by (simp add: nths_append min_def)

lemma pop_loop_desc:
  assumes "sorted_wrt (>) js"
  shows "pop_loop js xs popped =
           (nths xs {k. int k \<notin> set js}, popped @ rev (nths xs {k. int k \<in> set js}))"
  using assms
proof (induction js arbitrary: xs popped)
  case Nil
  then show ?case by (simp add: nths_all)
next
  case (Cons i rest)
  then have below: "\<And>j. j \<in> set rest \<Longrightarrow> j < i" and srt: "sorted_wrt (>) rest"
    by auto
  show ?case
  proof (cases "int (length xs) > i \<and> i \<ge> 0")
    case True
    define n where "n = nat i"
    have n: "n < length xs" "int n = i" using True unfolding n_def by linarith+
    let ?xs' = "take n xs @ drop (Suc n) xs"
    have hi: "\<And>z. z \<in> set rest \<Longrightarrow> z < int n"
      using below n(2) by simp
    have u1: "{j. j + n \<in> {k. int k \<notin> set rest}} = UNIV"
      and u2: "{j. j + Suc n \<in> {k. int k \<notin> set (i # rest)}} = UNIV"
      and e1: "{j. j + n \<in> {k. int k \<in> set rest}} = {}"
      and e2: "{j. j + Suc n \<in> {k. int k \<in> set (i # rest)}} = {}"
      using n(2) by (auto dest!: hi)
    have m1: "n \<notin> {k. int k \<notin> set (i # rest)}" and m2: "n \<in> {k. int k \<in> set (i # rest)}"
      using n(2) by (auto dest!: hi)
    have keepL: "nths (take n xs) {k. int k \<notin> set (i # rest)} = nths (take n xs) {k. int k \<notin> set rest}"
      by (rule nths_cong_length) (use n in auto)
    have keep1: "nths ?xs' {k. int k \<notin> set rest}
        = nths (take n xs) {k. int k \<notin> set rest} @ drop (Suc n) xs"
      by (simp only: nths_removed_at [OF n(1)] u1 nths_UNIV)
    have keep2: "nths xs {k. int k \<notin> set (i # rest)}
        = nths (take n xs) {k. int k \<notin> set rest} @ drop (Suc n) xs"
      by (simp only: nths_split_at [OF n(1), of "{k. int k \<notin> set (i # rest)}"] u2 nths_UNIV m1 keepL
            if_False append_Nil)
    have rem1: "nths ?xs' {k. int k \<in> set rest} = nths (take n xs) {k. int k \<in> set rest}"
      by (simp only: nths_removed_at [OF n(1)] e1 nths_empty append_Nil2)
    have remL: "nths (take n xs) {k. int k \<in> set (i # rest)} = nths (take n xs) {k. int k \<in> set rest}"
      by (rule nths_cong_length) (use n in auto)
    have rem2: "nths xs {k. int k \<in> set (i # rest)}
        = nths (take n xs) {k. int k \<in> set rest} @ [xs ! n]"
      by (simp only: nths_split_at [OF n(1), of "{k. int k \<in> set (i # rest)}"] e2 nths_empty m2 remL
            if_True append_Nil2)
    have "pop_loop (i # rest) xs popped = pop_loop rest ?xs' (popped @ [xs ! n])"
      using True by (simp add: n_def)
    also have "\<dots> = (nths ?xs' {k. int k \<notin> set rest},
                     (popped @ [xs ! n]) @ rev (nths ?xs' {k. int k \<in> set rest}))"
      by (rule Cons.IH [OF srt])
    finally show ?thesis
      by (simp only: keep1 keep2 rem1 rem2) simp
  next
    case False
    have k: "nths xs {k. int k \<notin> set (i # rest)} = nths xs {k. int k \<notin> set rest}"
      by (rule nths_cong_length) (use False in auto)
    have r: "nths xs {k. int k \<in> set (i # rest)} = nths xs {k. int k \<in> set rest}"
      by (rule nths_cong_length) (use False in auto)
    have "pop_loop (i # rest) xs popped = pop_loop rest xs popped"
      using False by auto
    also have "\<dots> = (nths xs {k. int k \<notin> set rest}, popped @ rev (nths xs {k. int k \<in> set rest}))"
      by (rule Cons.IH [OF srt])
    finally show ?thesis by (simp only: k r)
  qed
qed

lemma descending_distinct: "sorted_wrt (>) (rev (sort (remdups (xs :: int list))))"
proof -
  have "sorted (sort (remdups xs))" "distinct (sort (remdups xs))" by simp_all
  then have "sorted_wrt (<) (sort (remdups xs))"
    using strict_sorted_iff by blast
  then show ?thesis by (simp add: sorted_wrt_rev)
qed

lemma pop_items_eq:
  "pop_items indices items = (kept_items indices items, rev (removed_items indices items))"
proof -
  let ?ix = "if indices = [] then [0] else indices"
  have "pop_items indices items = pop_loop (rev (sort (remdups ?ix))) items []"
    by (simp add: pop_items_def Let_def)
  also have "\<dots> = (nths items {k. int k \<notin> set (rev (sort (remdups ?ix)))},
                    [] @ rev (nths items {k. int k \<in> set (rev (sort (remdups ?ix)))}))"
    by (rule pop_loop_desc [OF descending_distinct])
  also have "\<dots> = (kept_items indices items, rev (removed_items indices items))"
    by (simp add: nths_filter_upt kept_items_def removed_items_def pop_targets_def)
  finally show ?thesis .
qed

lemma pop_response_eq:
  "pop_response (rev removed) =
     (if removed = [] then ''(none popped)''
      else join '' | '' (map (\<lambda>item. ''-: '' @ item) removed))"
proof -
  have "\<forall>e \<in> set (map (\<lambda>item. ''-: '' @ item) removed). e \<noteq> []" by auto
  from or_else_join [OF this] show ?thesis by (simp add: pop_response_def)
qed

lemma in_range_targets_card:
  "card {i \<in> T. 0 \<le> i \<and> i < int n} = length (filter (\<lambda>k. int k \<in> T) [0..<n])"
proof -
  have "{i \<in> T. 0 \<le> i \<and> i < int n} = int ` set (filter (\<lambda>k. int k \<in> T) [0..<n])"
  proof (intro set_eqI iffI)
    fix i assume "i \<in> {i \<in> T. 0 \<le> i \<and> i < int n}"
    then have "int (nat i) = i" "nat i < n" "int (nat i) \<in> T" by auto
    then have "nat i \<in> set (filter (\<lambda>k. int k \<in> T) [0..<n])" by simp
    then show "i \<in> int ` set (filter (\<lambda>k. int k \<in> T) [0..<n])"
      using \<open>int (nat i) = i\<close> by (metis imageI)
  next
    fix i assume "i \<in> int ` set (filter (\<lambda>k. int k \<in> T) [0..<n])"
    then show "i \<in> {i \<in> T. 0 \<le> i \<and> i < int n}" by auto
  qed
  then have "card {i \<in> T. 0 \<le> i \<and> i < int n} = card (set (filter (\<lambda>k. int k \<in> T) [0..<n]))"
    by (simp add: card_image)
  also have "\<dots> = length (filter (\<lambda>k. int k \<in> T) [0..<n])"
    by (rule distinct_card) simp
  finally show ?thesis .
qed

lemma kept_length:
  "length (kept_items indices items)
     + card {i \<in> pop_targets indices. 0 \<le> i \<and> i < int (length items)} = length items"
proof -
  have "length (filter (\<lambda>k. int k \<in> pop_targets indices) [0..<length items])
      + length (filter (\<lambda>k. \<not> int k \<in> pop_targets indices) [0..<length items])
      = length [0..<length items]"
    by (rule sum_length_filter_compl)
  then show ?thesis
    by (simp add: kept_items_def in_range_targets_card)
qed

lemma pop_all_example:
  assumes "st nick = [''a'', ''b'', ''c'']"
  shows "stack re rnd st nick ''pop [:]'' =
           Inr (Some ''-: a | -: b | -: c'', st(nick := []))"
proof -
  have s: "split_subcommand ''pop [:]'' = (''pop'', ''[:]'')" by code_simp
  have t: "strip '':'' = '':''" "strip [] = []" by code_simp+
  have c: "command_syntax nick ''[:]'' = Inr (nick, Some '':'', [])"
    using bracket_only_syntax [of "'':''" nick] t by simp
  have sp: "split1 CHR '':'' '':'' = [[], []]" by (simp add: split1_def)
  have u: "py_range 0 3 = [0, 1, 2]" by (simp add: py_range_def upto_rec1)
  have a: "parse_atom re '':'' [''a'', ''b'', ''c''] = Inr [0, 1, 2]"
    by (simp add: parse_atom_def startswith_def endswith_def sp t u)
  have p: "parse_index re (Some '':'') [''a'', ''b'', ''c''] = Inr [0, 1, 2]"
    by (simp add: parse_index_def t a)
  have r: "removed_items [0, 1, 2] [''a'', ''b'', ''c''] = [''a'', ''b'', ''c'']"
    "kept_items [0, 1, 2] [''a'', ''b'', ''c''] = []"
    by (simp_all add: removed_items_def kept_items_def pop_targets_def upt_conv_Cons)
  have pr: "pop_response [''c'', ''b'', ''a''] = ''-: a | -: b | -: c''" by code_simp
  have "run_subcommand rnd st ''pop'' nick [] [''a'', ''b'', ''c''] [0, 1, 2] =
          (Some ''-: a | -: b | -: c'', st(nick := []))"
    by (simp add: run_subcommand_def pop_items_eq save_items_def r pr)
  then show ?thesis
    by (simp add: stack_def s c get_items_def assms p)
qed

text \<open>
  Claim C2. pop asks for the given positions, or for position 0 when none is given. It
  stores the list without the items at the positions asked for that lie in
  \<open>0 \<le> i < length\<close>: one item goes for each such position, however often the position
  was given, and positions outside that range remove nothing. The answer lists the
  removed items in ascending position of the list before, each as \<open>-: item\<close>, joined by
  \<open>" | "\<close>, and is \<open>(none popped)\<close> when nothing was removed. On the stack a, b, c
  the command with index \<open>[:]\<close> answers \<open>-: a | -: b | -: c\<close> and stores the empty list.
\<close>

theorem pop_removes:
  "run_subcommand rnd st ''pop'' topic new_item items indices =
     (Some (if removed_items indices items = [] then ''(none popped)''
            else join '' | '' (map (\<lambda>item. ''-: '' @ item) (removed_items indices items))),
      st(topic := kept_items indices items))
   \<and> length (kept_items indices items)
       + card {i \<in> pop_targets indices. 0 \<le> i \<and> i < int (length items)} = length items
   \<and> (st nick = [''a'', ''b'', ''c''] \<longrightarrow>
        stack re rnd st nick ''pop [:]'' = Inr (Some ''-: a | -: b | -: c'', st(nick := [])))"
proof -
  have "run_subcommand rnd st ''pop'' topic new_item items indices =
     (Some (pop_response (rev (removed_items indices items))),
      st(topic := kept_items indices items))"
    by (simp add: run_subcommand_def pop_items_eq save_items_def)
  then show ?thesis
    using pop_all_example [of st nick re rnd]
    by (simp only: pop_response_eq kept_length) simp
qed

theorem pop_removes_witness:
  "run_subcommand (\<lambda>xs. xs) (\<lambda>t. []) ''pop'' ''t'' [] [''a'', ''b'', ''c'', ''d''] [2, 0, 2, 9, - 1]
     = (Some ''-: a | -: c'', (\<lambda>t. [])(''t'' := [''b'', ''d'']))
   \<and> run_subcommand (\<lambda>xs. xs) (\<lambda>t. []) ''pop'' ''t'' [] [''a'', ''b''] []
     = (Some ''-: a'', (\<lambda>t. [])(''t'' := [''b'']))
   \<and> run_subcommand (\<lambda>xs. xs) (\<lambda>t. []) ''pop'' ''t'' [] [''a'', ''b''] [5]
     = (Some ''(none popped)'', (\<lambda>t. [])(''t'' := [''a'', ''b'']))
   \<and> stack (\<lambda>p s. None) (\<lambda>xs. xs) (\<lambda>t. [''a'', ''b'', ''c'']) ''me'' ''pop [:]''
     = Inr (Some ''-: a | -: b | -: c'', (\<lambda>t. [''a'', ''b'', ''c''])(''me'' := []))"
proof -
  have r: "removed_items [2, 0, 2, 9, - 1] [''a'', ''b'', ''c'', ''d''] = [''a'', ''c'']"
    "removed_items [] [''a'', ''b''] = [''a'']"
    "removed_items [5] [''a'', ''b''] = []"
    by (simp_all add: removed_items_def pop_targets_def upt_conv_Cons)
  have k: "kept_items [2, 0, 2, 9, - 1] [''a'', ''b'', ''c'', ''d''] = [''b'', ''d'']"
    "kept_items [] [''a'', ''b''] = [''b'']"
    "kept_items [5] [''a'', ''b''] = [''a'', ''b'']"
    by (simp_all add: kept_items_def pop_targets_def upt_conv_Cons)
  from pop_removes [of "\<lambda>xs. xs" "\<lambda>t. []" "''t''" "[]" "[''a'', ''b'', ''c'', ''d'']" "[2, 0, 2, 9, - 1]"]
       pop_removes [of "\<lambda>xs. xs" "\<lambda>t. []" "''t''" "[]" "[''a'', ''b'']" "[]"]
       pop_removes [of "\<lambda>xs. xs" "\<lambda>t. []" "''t''" "[]" "[''a'', ''b'']" "[5]"]
       pop_removes [of "\<lambda>xs. xs" "\<lambda>t. [''a'', ''b'', ''c'']" "''t''" "[]" "[]" "[]" "''me''" "\<lambda>p s. None"]
  show ?thesis by (simp add: r k)
qed

subsection \<open>add\<close>









subsection \<open>add followed by pop\<close>




























subsection \<open>Malformed atoms\<close>

lemma invalid_regex_raises:
  assumes "re ''('' ''a'' = None" and "st nick = [''a'']"
  shows "stack re rnd st nick ''show [/(/]'' = Inl ReError"
proof -
  have s: "split_subcommand ''show [/(/]'' = (''show'', ''[/(/]'')" by code_simp
  have t: "strip ''/(/'' = ''/(/''" by code_simp
  have c: "command_syntax nick ''[/(/]'' = Inr (nick, Some ''/(/'', [])"
    using bracket_only_syntax [of "''/(/''" nick] t by simp
  have a: "parse_atom re ''/(/'' [''a''] = Inl ReError"
    using assms(1) by (simp add: parse_atom_def startswith_def endswith_def slice_def clamp_index_def)
  have p: "parse_index re (Some ''/(/'') [''a''] = Inl ReError"
    by (simp add: parse_index_def t a)
  show ?thesis
    by (simp add: stack_def s c get_items_def assms(2) p)
qed

lemma invalid_regex_unnoticed:
  assumes "st nick = []"
  shows "stack re rnd st nick ''show [/(/]'' = Inr (Some ''(empty)'', st)"
proof -
  have s: "split_subcommand ''show [/(/]'' = (''show'', ''[/(/]'')" by code_simp
  have t: "strip ''/(/'' = ''/(/''" by code_simp
  have c: "command_syntax nick ''[/(/]'' = Inr (nick, Some ''/(/'', [])"
    using bracket_only_syntax [of "''/(/''" nick] t by simp
  have a: "parse_atom re ''/(/'' [] = Inr []"
    by (simp add: parse_atom_def startswith_def endswith_def slice_def clamp_index_def)
  have p: "parse_index re (Some ''/(/'') [] = Inr []"
    by (simp add: parse_index_def t a)
  have e: "show_items '' | '' [] [] = ''(empty)''"
    by (simp add: show_items_def py_range_def or_else_def)
  show ?thesis
    by (simp add: stack_def s c get_items_def assms p run_subcommand_def e)
qed

lemma malformed_integer_help:
  "stack re rnd st nick ''pop [x]'' = Inr (Some help_index, st)"
proof -
  have s: "split_subcommand ''pop [x]'' = (''pop'', ''[x]'')" by code_simp
  have t: "strip ''x'' = ''x''" by code_simp
  have c: "command_syntax nick ''[x]'' = Inr (nick, Some ''x'', [])"
    using bracket_only_syntax [of "''x''" nick] t by simp
  have i: "py_int ''x'' = None" by code_simp
  have a: "parse_atom re ''x'' (st nick) = Inl ValueError"
    by (simp add: parse_atom_def startswith_def endswith_def i)
  have p: "parse_index re (Some ''x'') (st nick) = Inl ValueError"
    by (simp add: parse_index_def t a)
  show ?thesis
    by (simp add: stack_def s c get_items_def p)
qed

text \<open>
  Claim C5, evaluated on the code. The atom \<open>/(/\<close> holds a pattern that the
  regular-expression library refuses. On a topic with an item the search raises the
  library's error, which the handler for ValueError around \<^verbatim>\<open>parse_index\<close> does not
  catch: the command ends with that exception and returns no help text. On a topic with
  no item the search is never run and the atom passes unnoticed. An atom that is no
  integer, such as \<open>x\<close>, does give the index help and leaves the store as it is.
\<close>

theorem invalid_regex_escapes:
  "(re ''('' ''a'' = None \<and> st nick = [''a''] \<longrightarrow>
      stack re rnd st nick ''show [/(/]'' = Inl ReError)
   \<and> (st nick = [] \<longrightarrow> stack re rnd st nick ''show [/(/]'' = Inr (Some ''(empty)'', st))
   \<and> stack re rnd st nick ''pop [x]'' = Inr (Some help_index, st)"
  using invalid_regex_raises [of re st nick rnd] invalid_regex_unnoticed [of st nick re rnd]
    malformed_integer_help [of re rnd st nick]
  by blast

theorem invalid_regex_escapes_witness:
  "stack (\<lambda>p s. None) (\<lambda>xs. xs) (\<lambda>t. [''a'']) ''me'' ''show [/(/]'' = Inl ReError
   \<and> stack (\<lambda>p s. None) (\<lambda>xs. xs) (\<lambda>t. []) ''me'' ''show [/(/]'' = Inr (Some ''(empty)'', (\<lambda>t. []))"
  using invalid_regex_escapes [of "\<lambda>p s. None" "\<lambda>t. [''a'']" "''me''" "\<lambda>xs. xs"]
    invalid_regex_escapes [of "\<lambda>p s. None" "\<lambda>t. []" "''me''" "\<lambda>xs. xs"]
  by simp

end
